theory Spec2Isabelle
  imports Complex_Main "HOL-Library.Sublist"
begin

section \<open>The analytics service: sliding-window frequency tracker and risk scorer\<close>

text \<open>
  The source is \<^verbatim>\<open>src/analytics/app.py\<close>: one request handler, \<^verbatim>\<open>analyze\<close>, over the
  process-wide dictionary \<^verbatim>\<open>HISTORY\<close>. The handler is embedded as a function from the
  request body, the value of \<^verbatim>\<open>datetime.datetime.now()\<close> and the store to a result and
  the new store. Every exception the handler can raise is a value of \<open>error\<close>.
\<close>

subsection \<open>Time\<close>

text \<open>
  A Python \<^verbatim>\<open>datetime\<close> has microsecond resolution; a timestamp is the number of
  microseconds since a fixed origin. The difference of two of them is a \<^verbatim>\<open>timedelta\<close>,
  which Python keeps normalised as days, seconds (0 to 86399) and microseconds
  (0 to 999999). The attribute \<^verbatim>\<open>.seconds\<close> reads the middle component only.
\<close>

type_synonym datetime = int

definition timedelta_days :: "int \<Rightarrow> int" where
  "timedelta_days d = d div 86400000000"

definition timedelta_seconds :: "int \<Rightarrow> int" where
  "timedelta_seconds d = (d div 1000000) mod 86400"

definition timedelta_microseconds :: "int \<Rightarrow> int" where
  "timedelta_microseconds d = d mod 1000000"

definition usec :: "int \<Rightarrow> int" where
  \<comment> \<open>a number of whole seconds, in microseconds\<close>
  "usec s = s * 1000000"

subsection \<open>Request bodies and dictionary keys\<close>

text \<open>
  The value of \<^verbatim>\<open>request.json\<close> is the parsed Python object. A number is modelled by
  its exact value, which is what Python compares and hashes when the number is used as
  a dictionary key (\<^verbatim>\<open>1 == 1.0 == True\<close>); the tokens \<^verbatim>\<open>NaN\<close> and \<^verbatim>\<open>Infinity\<close>, which are
  not JSON, are left out. An object is an association list read with \<open>map_of\<close>.
\<close>

datatype json =
    JNull
  | JBool bool
  | JNum rat
  | JStr string
  | JArr "json list"
  | JObj "(string \<times> json) list"

datatype body = Malformed | Parsed json

datatype error =
    BadRequest       \<comment> \<open>HTTP 400, raised inside \<^verbatim>\<open>request.json\<close>\<close>
  | AttributeError   \<comment> \<open>\<^verbatim>\<open>data.get\<close> on a value that is not a dict\<close>
  | TypeError        \<comment> \<open>unhashable dictionary key\<close>

text \<open>
  Modelled from the spec: the framework's \<^verbatim>\<open>request.json\<close> is not part of the source.
  Section 7 of the specification says that a body that is not valid structured data is
  surfaced as a client error; a body that parses is handed to the handler as it is.
\<close>

definition request_json :: "body \<Rightarrow> error + json" where
  "request_json b = (case b of Malformed \<Rightarrow> Inl BadRequest | Parsed j \<Rightarrow> Inr j)"

text \<open>\<^verbatim>\<open>data.get(k)\<close>: the value under \<open>k\<close>, \<^verbatim>\<open>None\<close> when the dict has no such key, and an
  \<^verbatim>\<open>AttributeError\<close> when \<open>data\<close> is not a dict at all.\<close>

definition dict_get :: "json \<Rightarrow> string \<Rightarrow> error + json" where
  "dict_get data k =
     (case data of
        JObj kvs \<Rightarrow> (case map_of kvs k of None \<Rightarrow> Inr JNull | Some v \<Rightarrow> Inr v)
      | _ \<Rightarrow> Inl AttributeError)"

datatype key = KNone | KNum rat | KStr string

text \<open>Hashing a value for a dictionary lookup: lists and dicts raise \<^verbatim>\<open>TypeError\<close>;
  \<^verbatim>\<open>True\<close> and \<^verbatim>\<open>False\<close> are the keys 1 and 0.\<close>

definition hash_key :: "json \<Rightarrow> error + key" where
  "hash_key v =
     (case v of
        JNull \<Rightarrow> Inr KNone
      | JBool b \<Rightarrow> Inr (KNum (if b then 1 else 0))
      | JNum r \<Rightarrow> Inr (KNum r)
      | JStr s \<Rightarrow> Inr (KStr s)
      | JArr _ \<Rightarrow> Inl TypeError
      | JObj _ \<Rightarrow> Inl TypeError)"

subsection \<open>The store\<close>

text \<open>\<^verbatim>\<open>HISTORY = {'patients': {}, 'doctors': {}}\<close> (lines 10 to 13).\<close>

record history =
  patients :: "key \<rightharpoonup> datetime list"
  doctors :: "key \<rightharpoonup> datetime list"

definition HISTORY :: history where
  "HISTORY = \<lparr>patients = Map.empty, doctors = Map.empty\<rparr>"

subsection \<open>The response\<close>

text \<open>\<^verbatim>\<open>risk_score\<close> is the integer literal \<^verbatim>\<open>0\<close> or one of the float literals \<^verbatim>\<open>0.3\<close>,
  \<^verbatim>\<open>0.8\<close>; a float literal is modelled by the decimal it denotes.\<close>

datatype pynum = PyInt int | PyFloat rat

fun num_val :: "pynum \<Rightarrow> rat" where
  "num_val (PyInt i) = of_int i"
| "num_val (PyFloat r) = r"

record response =
  risk_score :: pynum
  reason :: string
  count_last_hour :: nat

text \<open>\<^verbatim>\<open>str\<close> of a non-negative integer, as the f-string on line 40 formats \<open>count\<close>.\<close>

fun str_nat :: "nat \<Rightarrow> string" where
  "str_nat n =
     (if n < 10 then [''0123456789'' ! n]
      else str_nat (n div 10) @ [''0123456789'' ! (n mod 10)])"

declare str_nat.simps [simp del]

subsection \<open>The handler\<close>

text \<open>Line 29, the condition of the list comprehension: \<^verbatim>\<open>(now - t).seconds < 3600\<close>.\<close>

definition keep :: "datetime \<Rightarrow> datetime \<Rightarrow> bool" where
  "keep now t = (timedelta_seconds (now - t) < 3600)"

text \<open>Lines 24 to 29: create the entry if the key is new, append \<open>now\<close>, then replace the
  entry by the filtered list.\<close>

definition update_history :: "key \<Rightarrow> datetime \<Rightarrow> history \<Rightarrow> history" where
  "update_history p_hash now h =
     (let h1 = (if p_hash \<notin> dom (patients h)
                then h\<lparr>patients := (patients h)(p_hash \<mapsto> [])\<rparr> else h);
          h2 = h1\<lparr>patients := (patients h1)(p_hash \<mapsto> the (patients h1 p_hash) @ [now])\<rparr>
      in h2\<lparr>patients := (patients h2)(p_hash \<mapsto> filter (keep now) (the (patients h2 p_hash)))\<rparr>)"

text \<open>Lines 35 to 49: the score, the reason and the response built from \<open>count\<close>.\<close>

definition score :: "nat \<Rightarrow> response" where
  "score count =
     (if count > 3 then
        \<lparr>risk_score = PyFloat (8 / 10),
         reason = ''High frequency: '' @ str_nat count @ '' prescriptions in last hour.'',
         count_last_hour = count\<rparr>
      else if count > 1 then
        \<lparr>risk_score = PyFloat (3 / 10), reason = ''Moderate frequency.'',
         count_last_hour = count\<rparr>
      else
        \<lparr>risk_score = PyInt 0, reason = ''Normal usage pattern.'',
         count_last_hour = count\<rparr>)"

text \<open>The handler, lines 16 to 49. An exception leaves the function at the line that
  raises it, so the store it returns is the one reached so far.\<close>

definition analyze :: "body \<Rightarrow> datetime \<Rightarrow> history \<Rightarrow> (error + response) \<times> history" where
  "analyze b now h =
     (case request_json b of
        Inl e \<Rightarrow> (Inl e, h)
      | Inr data \<Rightarrow>
         (case dict_get data ''patientHash'' of
            Inl e \<Rightarrow> (Inl e, h)
          | Inr p_val \<Rightarrow>
             (case dict_get data ''doctorAddress'' of
                Inl e \<Rightarrow> (Inl e, h)
              | Inr d_addr \<Rightarrow>
                 (case hash_key p_val of
                    Inl e \<Rightarrow> (Inl e, h)
                  | Inr p_hash \<Rightarrow>
                     (let h' = update_history p_hash now h;
                          count = length (the (patients h' p_hash))
                      in (Inr (score count), h'))))))"

text \<open>The dictionary key a request is filed under, or the exception raised before the
  store is touched: lines 17, 18 and 24 of the handler.\<close>

definition patient_key :: "body \<Rightarrow> error + key" where
  "patient_key b =
     (case request_json b of
        Inl e \<Rightarrow> Inl e
      | Inr data \<Rightarrow>
         (case dict_get data ''patientHash'' of
            Inl e \<Rightarrow> Inl e
          | Inr p_val \<Rightarrow> hash_key p_val))"

text \<open>The operation the specification calls \<open>recordAndCount\<close>: lines 24 to 33, from the
  hashed identifier and the clock value to the count and the new store.\<close>

definition recordAndCount :: "key \<Rightarrow> datetime \<Rightarrow> history \<Rightarrow> nat \<times> history" where
  "recordAndCount p_hash now h =
     (let h' = update_history p_hash now h
      in (length (the (patients h' p_hash)), h'))"

text \<open>The stored sequence of a key, empty when the key is absent.\<close>

definition entry :: "history \<Rightarrow> key \<Rightarrow> datetime list" where
  "entry h k = (case patients h k of None \<Rightarrow> [] | Some ts \<Rightarrow> ts)"

text \<open>The clock values of the requests filed under key \<open>k\<close>, in the order of arrival.\<close>

fun inserted :: "key \<Rightarrow> (body \<times> datetime) list \<Rightarrow> datetime list" where
  "inserted k [] = []"
| "inserted k ((b, now) # rs) =
     (if patient_key b = Inr k then now # inserted k rs else inserted k rs)"

text \<open>A sequence of requests, each with the clock value the handler reads.\<close>

fun serve :: "(body \<times> datetime) list \<Rightarrow> history \<Rightarrow> (error + response) list \<times> history" where
  "serve [] h = ([], h)"
| "serve ((b, now) # rs) h =
     (let (r, h1) = analyze b now h; (out, h2) = serve rs h1 in (r # out, h2))"

section \<open>Basic facts\<close>

text \<open>The three components determine the difference, as Python normalises it.\<close>

lemma timedelta_normalised:
  "d = (timedelta_days d * 86400 + timedelta_seconds d) * 1000000 + timedelta_microseconds d \<and>
   0 \<le> timedelta_seconds d \<and> timedelta_seconds d < 86400 \<and>
   0 \<le> timedelta_microseconds d \<and> timedelta_microseconds d < 1000000"
proof -
  have "d div 86400000000 = (d div 1000000) div 86400"
    using zdiv_zmult2_eq [of 1000000 d 86400] by simp
  then have "timedelta_days d * 86400 + timedelta_seconds d = d div 1000000"
    by (simp add: timedelta_days_def timedelta_seconds_def)
  then show ?thesis
    by (simp add: timedelta_seconds_def timedelta_microseconds_def)
qed

subsection \<open>One update of the store\<close>

lemma patients_update_history:
  "patients (update_history p now h) =
     (patients h)(p \<mapsto> filter (keep now) (entry h p @ [now]))"
  by (auto simp: update_history_def entry_def Let_def fun_eq_iff split: option.splits)

lemma doctors_update_history: "doctors (update_history p now h) = doctors h"
  by (simp add: update_history_def Let_def)

lemma entry_update_history_same:
  "entry (update_history p now h) p = filter (keep now) (entry h p @ [now])"
  by (simp add: entry_def patients_update_history)

lemma entry_update_history_other:
  "q \<noteq> p \<Longrightarrow> entry (update_history p now h) q = entry h q"
  by (simp add: entry_def patients_update_history)

lemma keep_self: "keep now now"
  by (simp add: keep_def timedelta_seconds_def)

lemma analyze_ok:
  "patient_key b = Inr k \<Longrightarrow>
   analyze b now h =
     (Inr (score (length (filter (keep now) (entry h k @ [now])))), update_history k now h)"
  by (auto simp: patient_key_def analyze_def dict_get_def Let_def entry_def
      patients_update_history split: sum.splits json.splits option.splits)

lemma analyze_err:
  "patient_key b = Inl e \<Longrightarrow> analyze b now h = (Inl e, h)"
  by (auto simp: patient_key_def analyze_def dict_get_def Let_def
      split: sum.splits json.splits option.splits)

lemma recordAndCount_eq:
  "recordAndCount k now h = (length (filter (keep now) (entry h k @ [now])), update_history k now h)"
  by (simp add: recordAndCount_def Let_def patients_update_history)

subsection \<open>The filter within one day\<close>

lemma div_million_less:
  fixes d n :: int
  shows "(d div 1000000 < n) = (d < n * 1000000)"
proof -
  have "d = 1000000 * (d div 1000000) + d mod 1000000" by simp
  moreover have "0 \<le> d mod 1000000" "d mod 1000000 < 1000000" by simp_all
  ultimately show ?thesis by linarith
qed

lemma div_million_nonneg:
  fixes d :: int
  shows "(0 \<le> d div 1000000) = (0 \<le> d)"
  by (simp add: pos_imp_zdiv_nonneg_iff)

lemma keep_iff_within_day:
  assumes "0 \<le> now - t" "now - t < usec 86400"
  shows "keep now t = (now - t < usec 3600)"
proof -
  have "0 \<le> (now - t) div 1000000" using assms(1) by (simp only: div_million_nonneg)
  moreover have "(now - t) div 1000000 < 86400"
    using assms(2) by (simp only: div_million_less usec_def)
  ultimately have "((now - t) div 1000000) mod 86400 = (now - t) div 1000000" by simp
  then show ?thesis
    by (simp only: keep_def timedelta_seconds_def div_million_less usec_def)
qed

subsection \<open>The handler by the key of the request\<close>

lemma analyze_cases:
  "analyze b now h =
     (case patient_key b of
        Inl e \<Rightarrow> (Inl e, h)
      | Inr k \<Rightarrow> (Inr (score (fst (recordAndCount k now h))), snd (recordAndCount k now h)))"
  by (simp add: analyze_ok analyze_err recordAndCount_eq split: sum.splits)

lemma doctors_analyze: "doctors (snd (analyze b now h)) = doctors h"
  by (simp add: analyze_cases recordAndCount_eq doctors_update_history split: sum.splits)

lemma serve_Cons:
  "serve ((b, now) # rs) h =
     (fst (analyze b now h) # fst (serve rs (snd (analyze b now h))),
      snd (serve rs (snd (analyze b now h))))"
  by (simp add: case_prod_beta)

lemma doctors_serve: "doctors (snd (serve rs h)) = doctors h"
proof (induction rs arbitrary: h)
  case Nil
  show ?case by simp
next
  case (Cons r rs)
  obtain b now where r: "r = (b, now)" by (cases r)
  show ?case unfolding r serve_Cons by (simp add: Cons.IH doctors_analyze)
qed

lemma update_history_doctors:
  "update_history k now (h\<lparr>doctors := d\<rparr>) = (update_history k now h)\<lparr>doctors := d\<rparr>"
  by (simp add: update_history_def Let_def)

lemma patient_key_str:
  "patient_key (Parsed (JObj [(''patientHash'', JStr s)])) = Inr (KStr s)"
  by (simp add: patient_key_def request_json_def dict_get_def hash_key_def)

lemma entry_HISTORY: "entry HISTORY k = []"
  by (simp add: entry_def HISTORY_def)

subsection \<open>Requests for one identifier within the window\<close>

lemma filter_keep_all:
  assumes "\<forall>s\<in>set pre. s \<le> t \<and> t - s < usec 3600"
  shows "filter (keep t) (pre @ [t]) = pre @ [t]"
proof -
  have "keep t s" if "s \<in> set pre" for s
  proof -
    from that assms have "0 \<le> t - s" "t - s < usec 3600" by auto
    moreover from this have "t - s < usec 86400" by (simp add: usec_def)
    ultimately show ?thesis by (simp add: keep_iff_within_day)
  qed
  then show ?thesis by (simp add: keep_self)
qed

lemma serve_within:
  assumes "\<forall>r\<in>set rs. patient_key (fst r) = Inr p"
    and "entry h p = pre"
    and "sorted (pre @ map snd rs)"
    and "\<forall>s\<in>set (pre @ map snd rs). \<forall>t\<in>set (pre @ map snd rs). t - s < usec 3600"
  shows "fst (serve rs h) = map (\<lambda>n. Inr (score n)) [Suc (length pre)..<Suc (length pre + length rs)]
    \<and> entry (snd (serve rs h)) p = pre @ map snd rs"
  using assms
proof (induction rs arbitrary: pre h)
  case Nil
  then show ?case by simp
next
  case (Cons r rs)
  obtain b t where r: "r = (b, t)" by (cases r)
  have key: "patient_key b = Inr p" using Cons.prems(1) r by simp
  have "\<forall>s\<in>set pre. s \<le> t \<and> t - s < usec 3600"
    using Cons.prems(3,4) r by (auto simp: sorted_append)
  then have keepall: "filter (keep t) (pre @ [t]) = pre @ [t]" by (rule filter_keep_all)
  have step: "analyze b t h = (Inr (score (Suc (length pre))), update_history p t h)"
    using analyze_ok [OF key, of t h] unfolding Cons.prems(2) keepall by simp
  have e: "entry (update_history p t h) p = pre @ [t]"
    unfolding entry_update_history_same Cons.prems(2) keepall by (rule refl)
  have IH: "fst (serve rs (update_history p t h)) =
      map (\<lambda>n. Inr (score n)) [Suc (length (pre @ [t]))..<Suc (length (pre @ [t]) + length rs)]
    \<and> entry (snd (serve rs (update_history p t h))) p = (pre @ [t]) @ map snd rs"
  proof (rule Cons.IH)
    show "\<forall>r\<in>set rs. patient_key (fst r) = Inr p" using Cons.prems(1) by simp
    show "entry (update_history p t h) p = pre @ [t]" by (rule e)
    show "sorted ((pre @ [t]) @ map snd rs)" using Cons.prems(3) r by simp
    show "\<forall>s\<in>set ((pre @ [t]) @ map snd rs). \<forall>t'\<in>set ((pre @ [t]) @ map snd rs). t' - s < usec 3600"
      using Cons.prems(4) r by simp
  qed
  have upt: "[Suc (length pre)..<Suc (length pre + length (r # rs))] =
      Suc (length pre) # [Suc (Suc (length pre))..<Suc (Suc (length pre + length rs))]"
    by (subst upt_rec) simp
  have hd: "fst (serve (r # rs) h) =
      Inr (score (Suc (length pre))) # fst (serve rs (update_history p t h))"
    and tl: "snd (serve (r # rs) h) = snd (serve rs (update_history p t h))"
    unfolding r serve_Cons step by simp_all
  show ?case unfolding hd tl upt using IH r by (simp del: upt_Suc)
qed

lemma sorted_span:
  fixes xs :: "int list"
  assumes "sorted xs" "s \<in> set xs" "t \<in> set xs"
  shows "t - s \<le> last xs - hd xs"
proof -
  have ne: "xs \<noteq> []" using assms(2) by auto
  have "hd xs \<le> s" using assms(1,2) ne by (cases xs) auto
  moreover have "t \<le> last xs"
    using assms(1,3) ne by (cases xs rule: rev_cases) (auto simp: sorted_append)
  ultimately show ?thesis by simp
qed

lemma serve_fresh_within:
  assumes "rs \<noteq> []"
    and "\<forall>r\<in>set rs. patient_key (fst r) = Inr p"
    and "sorted (map snd rs)"
    and "snd (last rs) - snd (hd rs) < usec 3600"
  shows "fst (serve rs HISTORY) = map (\<lambda>n. Inr (score n)) [1..<Suc (length rs)]"
    and "entry (snd (serve rs HISTORY)) p = map snd rs"
proof -
  have span: "\<forall>s\<in>set ([] @ map snd rs). \<forall>t\<in>set ([] @ map snd rs). t - s < usec 3600"
  proof (intro ballI)
    fix s t assume "s \<in> set ([] @ map snd rs)" "t \<in> set ([] @ map snd rs)"
    then have "t - s \<le> last (map snd rs) - hd (map snd rs)"
      using sorted_span [OF assms(3)] by simp
    also have "\<dots> = snd (last rs) - snd (hd rs)"
      using assms(1) by (simp add: last_map hd_map)
    finally show "t - s < usec 3600" using assms(4) by simp
  qed
  have "fst (serve rs HISTORY) =
      map (\<lambda>n. Inr (score n)) [Suc (length ([]::int list))..<Suc (length ([]::int list) + length rs)]
    \<and> entry (snd (serve rs HISTORY)) p = [] @ map snd rs"
    by (rule serve_within [OF assms(2) entry_HISTORY _ span]) (simp add: assms(3))
  then show "fst (serve rs HISTORY) = map (\<lambda>n. Inr (score n)) [1..<Suc (length rs)]"
    and "entry (snd (serve rs HISTORY)) p = map snd rs"
    by (simp_all del: upt_Suc)
qed

subsection \<open>Stores that agree outside one identifier\<close>

lemma analyze_agree:
  assumes "patient_key b \<noteq> Inr a"
    and "\<forall>k. k \<noteq> a \<longrightarrow> patients h k = patients h' k"
  shows "fst (analyze b now h) = fst (analyze b now h')"
    and "\<forall>k. k \<noteq> a \<longrightarrow> patients (snd (analyze b now h)) k = patients (snd (analyze b now h')) k"
proof -
  show "fst (analyze b now h) = fst (analyze b now h')"
  proof (cases "patient_key b")
    case (Inl e)
    then show ?thesis by (simp add: analyze_err)
  next
    case (Inr k)
    then have "k \<noteq> a" using assms(1) by auto
    then have "entry h k = entry h' k" using assms(2) by (simp add: entry_def)
    then show ?thesis by (simp add: analyze_ok [OF Inr])
  qed
  show "\<forall>k. k \<noteq> a \<longrightarrow> patients (snd (analyze b now h)) k = patients (snd (analyze b now h')) k"
  proof (cases "patient_key b")
    case (Inl e)
    then show ?thesis using assms(2) by (simp add: analyze_err)
  next
    case (Inr k)
    then have "k \<noteq> a" using assms(1) by auto
    then have "entry h k = entry h' k" using assms(2) by (simp add: entry_def)
    then show ?thesis using assms(2)
      by (simp add: analyze_ok [OF Inr] patients_update_history)
  qed
qed

lemma serve_agree:
  assumes "\<forall>r\<in>set rs. patient_key (fst r) \<noteq> Inr a"
    and "\<forall>k. k \<noteq> a \<longrightarrow> patients h k = patients h' k"
  shows "fst (serve rs h) = fst (serve rs h') \<and>
    (\<forall>k. k \<noteq> a \<longrightarrow> patients (snd (serve rs h)) k = patients (snd (serve rs h')) k)"
  using assms
proof (induction rs arbitrary: h h')
  case Nil
  then show ?case by simp
next
  case (Cons r rs)
  obtain b t where r: "r = (b, t)" by (cases r)
  have nk: "patient_key b \<noteq> Inr a" using Cons.prems(1) r by simp
  have IH: "fst (serve rs (snd (analyze b t h))) = fst (serve rs (snd (analyze b t h'))) \<and>
    (\<forall>k. k \<noteq> a \<longrightarrow> patients (snd (serve rs (snd (analyze b t h)))) k =
       patients (snd (serve rs (snd (analyze b t h')))) k)"
  proof (rule Cons.IH)
    show "\<forall>r\<in>set rs. patient_key (fst r) \<noteq> Inr a" using Cons.prems(1) by simp
    show "\<forall>k. k \<noteq> a \<longrightarrow> patients (snd (analyze b t h)) k = patients (snd (analyze b t h')) k"
      by (rule analyze_agree(2) [OF nk Cons.prems(2)])
  qed
  show ?case unfolding r serve_Cons
    using IH analyze_agree(1) [OF nk Cons.prems(2), of t] by simp
qed

lemma patients_recordAndCount_other:
  "a \<noteq> b \<Longrightarrow> patients (snd (recordAndCount a t h)) b = patients h b"
  by (simp add: recordAndCount_eq patients_update_history)

subsection \<open>Keys of object bodies, and errors\<close>

lemma patient_key_absent:
  "map_of kvs ''patientHash'' = None \<Longrightarrow> patient_key (Parsed (JObj kvs)) = Inr KNone"
  by (simp add: patient_key_def request_json_def dict_get_def hash_key_def)

lemma patient_key_obj:
  "patient_key (Parsed (JObj kvs)) =
     (case map_of kvs ''patientHash'' of None \<Rightarrow> Inr KNone | Some v \<Rightarrow> hash_key v)"
  by (simp add: patient_key_def request_json_def dict_get_def hash_key_def split: option.splits)

lemma analyze_error_keeps_store:
  "fst (analyze b now h) = Inl e \<Longrightarrow> snd (analyze b now h) = h"
  by (cases "patient_key b") (simp_all add: analyze_ok analyze_err)

subsection \<open>Order and multiplicity\<close>

lemma count_list_filter:
  "count_list (filter P xs) x = (if P x then count_list xs x else 0)"
  by (induction xs) auto

lemma inserted_Cons:
  "inserted k ((b, now) # rs) =
     (if patient_key b = Inr k then [now] else []) @ inserted k rs"
  by simp

lemma entry_analyze_subseq:
  "subseq (entry (snd (analyze b now h)) k)
     (entry h k @ (if patient_key b = Inr k then [now] else []))"
proof (cases "patient_key b")
  case (Inl e)
  then show ?thesis by (simp add: analyze_err)
next
  case (Inr p)
  show ?thesis
  proof (cases "p = k")
    case True
    then show ?thesis using Inr
      by (simp add: analyze_ok [OF Inr] entry_update_history_same del: filter_append)
  next
    case False
    then show ?thesis using Inr
      by (simp add: analyze_ok [OF Inr] entry_update_history_other)
  qed
qed

lemma entry_serve_subseq:
  "subseq (entry (snd (serve rs h)) k) (entry h k @ inserted k rs)"
proof (induction rs arbitrary: h)
  case Nil
  show ?case by simp
next
  case (Cons r rs)
  obtain b now where r: "r = (b, now)" by (cases r)
  let ?new = "if patient_key b = Inr k then [now] else []"
  have "subseq (entry (snd (serve rs (snd (analyze b now h)))) k)
      (entry (snd (analyze b now h)) k @ inserted k rs)"
    by (rule Cons.IH)
  also have "subseq (entry (snd (analyze b now h)) k @ inserted k rs)
      ((entry h k @ ?new) @ inserted k rs)"
    by (rule list_emb_append_mono [OF entry_analyze_subseq subseq_order.order_refl])
  finally show ?case unfolding r serve_Cons inserted_Cons by (simp only: snd_conv append_assoc)
qed

lemma sorted_subseq:
  fixes xs ys :: "int list"
  shows "subseq xs ys \<Longrightarrow> sorted ys \<Longrightarrow> sorted xs"
proof (induction rule: list_emb.induct)
  case (list_emb_Nil ys)
  show ?case by simp
next
  case (list_emb_Cons xs ys y)
  then show ?case by simp
next
  case (list_emb_Cons2 x y xs ys)
  then have "set xs \<subseteq> set ys" by (auto dest: list_emb_set)
  with list_emb_Cons2 show ?case by auto
qed

lemma inserted_filter:
  "inserted k rs = map snd (filter (\<lambda>r. patient_key (fst r) = Inr k) rs)"
  by (induction rs) auto

section \<open>The claims\<close>

subsection \<open>C1: pruning\<close>

text \<open>
  C1 says that an event recorded at time \<open>T\<close> is counted by a later call at time \<open>T'\<close> if
  and only if \<open>T' - T\<close> is less than 3600 seconds. The handler compares the \<^verbatim>\<open>.seconds\<close>
  component of the difference, which drops whole days: with one request for \<^verbatim>\<open>p1\<close> at
  time 0 and the next exactly one day later, the first event is 86400 seconds old, is
  kept, and the second response counts 2 events in the last hour.
\<close>

theorem day_old_event_counted:
  "\<not> (usec 86400 - 0 < usec 3600) \<and>
   fst (serve [(Parsed (JObj [(''patientHash'', JStr ''p1'')]), 0),
               (Parsed (JObj [(''patientHash'', JStr ''p1'')]), usec 86400)] HISTORY)
     = [Inr \<lparr>risk_score = PyInt 0, reason = ''Normal usage pattern.'',
              count_last_hour = 1\<rparr>,
        Inr \<lparr>risk_score = PyFloat (3 / 10), reason = ''Moderate frequency.'',
              count_last_hour = 2\<rparr>] \<and>
   entry (snd (serve [(Parsed (JObj [(''patientHash'', JStr ''p1'')]), 0),
               (Parsed (JObj [(''patientHash'', JStr ''p1'')]), usec 86400)] HISTORY)) (KStr ''p1'')
     = [0, usec 86400]"
  by (simp add: serve_Cons analyze_ok patient_key_str entry_HISTORY entry_update_history_same
      keep_def timedelta_seconds_def usec_def score_def)

subsection \<open>C2: the scorer\<close>

text \<open>
  C2: the scorer is defined on every count and its three branches partition the counts:
  at most 1 gives score 0 and the reason "Normal usage pattern.", 2 or 3 gives 0.3 and
  "Moderate frequency.", more than 3 gives 0.8 and the reason naming the count; the three
  conditions cover every count and no two of them hold together; and the count the
  handler scores is the length of the stored sequence after pruning. The score of the
  first branch is the integer 0, whose value is that of 0.0.
\<close>

theorem score_partition:
  "(count \<le> 1 \<longrightarrow>
      score count = \<lparr>risk_score = PyInt 0, reason = ''Normal usage pattern.'',
                     count_last_hour = count\<rparr> \<and>
      num_val (risk_score (score count)) = 0) \<and>
   (count = 2 \<or> count = 3 \<longrightarrow>
      score count = \<lparr>risk_score = PyFloat (3 / 10), reason = ''Moderate frequency.'',
                     count_last_hour = count\<rparr>) \<and>
   (3 < count \<longrightarrow>
      score count = \<lparr>risk_score = PyFloat (8 / 10),
                     reason = ''High frequency: '' @ str_nat count @ '' prescriptions in last hour.'',
                     count_last_hour = count\<rparr>) \<and>
   (count \<le> 1 \<or> count = 2 \<or> count = 3 \<or> 3 < count) \<and>
   \<not> (count \<le> 1 \<and> (count = 2 \<or> count = 3)) \<and>
   \<not> (count \<le> 1 \<and> 3 < count) \<and>
   \<not> ((count = 2 \<or> count = 3) \<and> 3 < count) \<and>
   (patient_key b = Inr k \<longrightarrow>
      fst (analyze b now h) = Inr (score (length (entry (snd (analyze b now h)) k))))"
proof -
  have post: "patient_key b = Inr k \<Longrightarrow>
      fst (analyze b now h) = Inr (score (length (entry (snd (analyze b now h)) k)))"
    by (simp add: analyze_ok entry_update_history_same)
  have arith: "(count \<le> 1 \<or> count = 2 \<or> count = 3 \<or> 3 < count)" by arith
  show ?thesis using post arith by (auto simp: score_def)
qed

theorem score_partition_witness:
  "score 1 = \<lparr>risk_score = PyInt 0, reason = ''Normal usage pattern.'', count_last_hour = 1\<rparr> \<and>
   score 3 = \<lparr>risk_score = PyFloat (3 / 10), reason = ''Moderate frequency.'', count_last_hour = 3\<rparr> \<and>
   score 12 = \<lparr>risk_score = PyFloat (8 / 10),
                reason = ''High frequency: 12 prescriptions in last hour.'', count_last_hour = 12\<rparr> \<and>
   fst (analyze (Parsed (JObj [(''patientHash'', JStr ''p1'')])) 0 HISTORY) = Inr (score 1)"
proof -
  have s: "str_nat 12 = ''12''" by (simp add: str_nat.simps)
  have k: "patient_key (Parsed (JObj [(''patientHash'', JStr ''p1'')])) = Inr (KStr ''p1'')"
    by (rule patient_key_str)
  have e: "entry (snd (analyze (Parsed (JObj [(''patientHash'', JStr ''p1'')])) 0 HISTORY)) (KStr ''p1'') = [0]"
    by (simp add: analyze_ok k entry_update_history_same entry_HISTORY keep_self)
  show ?thesis
    using score_partition [of 1] score_partition [of 3] score_partition [of 12]
      score_partition [of 0 "Parsed (JObj [(''patientHash'', JStr ''p1'')])" "KStr ''p1''" 0 HISTORY]
    by (simp add: s k e)
qed

subsection \<open>C3: counts within the window\<close>

text \<open>
  C3: from the initial store, successive requests for one identifier at non-decreasing
  clock values whose whole span is less than 3600 seconds are answered with the counts
  1, 2, ..., N, the last one with N, and all N events are stored. In particular four
  requests for \<^verbatim>\<open>p1\<close> at 0, 1, 2 and 3 seconds are answered with the counts 1, 2, 3, 4,
  the fourth with risk score 0.8.
\<close>

theorem counts_within_window:
  "(rs \<noteq> [] \<and> (\<forall>r\<in>set rs. patient_key (fst r) = Inr p) \<and> sorted (map snd rs) \<and>
      snd (last rs) - snd (hd rs) < usec 3600 \<longrightarrow>
      fst (serve rs HISTORY) = map (\<lambda>n. Inr (score n)) [1..<Suc (length rs)] \<and>
      last (fst (serve rs HISTORY)) = Inr (score (length rs)) \<and>
      entry (snd (serve rs HISTORY)) p = map snd rs) \<and>
   fst (serve [(Parsed (JObj [(''patientHash'', JStr ''p1'')]), usec 0),
               (Parsed (JObj [(''patientHash'', JStr ''p1'')]), usec 1),
               (Parsed (JObj [(''patientHash'', JStr ''p1'')]), usec 2),
               (Parsed (JObj [(''patientHash'', JStr ''p1'')]), usec 3)] HISTORY) =
     [Inr \<lparr>risk_score = PyInt 0, reason = ''Normal usage pattern.'', count_last_hour = 1\<rparr>,
      Inr \<lparr>risk_score = PyFloat (3 / 10), reason = ''Moderate frequency.'', count_last_hour = 2\<rparr>,
      Inr \<lparr>risk_score = PyFloat (3 / 10), reason = ''Moderate frequency.'', count_last_hour = 3\<rparr>,
      Inr \<lparr>risk_score = PyFloat (8 / 10),
           reason = ''High frequency: 4 prescriptions in last hour.'', count_last_hour = 4\<rparr>]"
proof (intro conjI impI)
  assume a: "rs \<noteq> [] \<and> (\<forall>r\<in>set rs. patient_key (fst r) = Inr p) \<and> sorted (map snd rs) \<and>
      snd (last rs) - snd (hd rs) < usec 3600"
  then have ne: "rs \<noteq> []" and k: "\<forall>r\<in>set rs. patient_key (fst r) = Inr p"
    and srt: "sorted (map snd rs)" and span: "snd (last rs) - snd (hd rs) < usec 3600"
    by simp_all
  show c: "fst (serve rs HISTORY) = map (\<lambda>n. Inr (score n)) [1..<Suc (length rs)]"
    by (rule serve_fresh_within(1) [OF ne k srt span])
  show "entry (snd (serve rs HISTORY)) p = map snd rs"
    by (rule serve_fresh_within(2) [OF ne k srt span])
  have "Suc 0 \<le> length rs" using ne by (cases rs) simp_all
  then have "[1..<Suc (length rs)] = [1..<length rs] @ [length rs]" by simp
  then show "last (fst (serve rs HISTORY)) = Inr (score (length rs))"
    unfolding c by simp
next
  let ?b = "Parsed (JObj [(''patientHash'', JStr ''p1'')])"
  let ?rs = "[(?b, usec 0), (?b, usec 1), (?b, usec 2), (?b, usec 3)]"
  have A: "fst (serve ?rs HISTORY) = map (\<lambda>n. Inr (score n)) [1..<Suc (length ?rs)]"
    by (rule serve_fresh_within(1) [where p = "KStr ''p1''"])
       (simp_all add: patient_key_str usec_def)
  have "str_nat (Suc (Suc (Suc (Suc 0)))) = ''4''" by (simp add: str_nat.simps)
  then have B: "map (\<lambda>n. Inr (score n)) [1..<Suc (length ?rs)] =
     [Inr \<lparr>risk_score = PyInt 0, reason = ''Normal usage pattern.'', count_last_hour = 1\<rparr>,
      Inr \<lparr>risk_score = PyFloat (3 / 10), reason = ''Moderate frequency.'', count_last_hour = 2\<rparr>,
      Inr \<lparr>risk_score = PyFloat (3 / 10), reason = ''Moderate frequency.'', count_last_hour = 3\<rparr>,
      Inr \<lparr>risk_score = PyFloat (8 / 10),
           reason = ''High frequency: 4 prescriptions in last hour.'', count_last_hour = 4\<rparr>]"
    by (simp add: upt_rec score_def eval_nat_numeral)
  show "fst (serve ?rs HISTORY) =
     [Inr \<lparr>risk_score = PyInt 0, reason = ''Normal usage pattern.'', count_last_hour = 1\<rparr>,
      Inr \<lparr>risk_score = PyFloat (3 / 10), reason = ''Moderate frequency.'', count_last_hour = 2\<rparr>,
      Inr \<lparr>risk_score = PyFloat (3 / 10), reason = ''Moderate frequency.'', count_last_hour = 3\<rparr>,
      Inr \<lparr>risk_score = PyFloat (8 / 10),
           reason = ''High frequency: 4 prescriptions in last hour.'', count_last_hour = 4\<rparr>]"
    using A B by (rule trans)
qed

theorem counts_within_window_witness:
  "fst (serve [(Parsed (JObj [(''patientHash'', JStr ''p7'')]), 0),
               (Parsed (JObj [(''patientHash'', JStr ''p7''), (''doctorAddress'', JStr ''0xd'')]), usec 1800),
               (Parsed (JObj [(''patientHash'', JStr ''p7'')]), usec 3600 - 1)] HISTORY) =
     [Inr (score 1), Inr (score 2), Inr (score 3)] \<and>
   entry (snd (serve [(Parsed (JObj [(''patientHash'', JStr ''p7'')]), 0),
               (Parsed (JObj [(''patientHash'', JStr ''p7''), (''doctorAddress'', JStr ''0xd'')]), usec 1800),
               (Parsed (JObj [(''patientHash'', JStr ''p7'')]), usec 3600 - 1)] HISTORY)) (KStr ''p7'') =
     [0, usec 1800, usec 3600 - 1]"
proof -
  let ?rs = "[(Parsed (JObj [(''patientHash'', JStr ''p7'')]), 0),
               (Parsed (JObj [(''patientHash'', JStr ''p7''), (''doctorAddress'', JStr ''0xd'')]), usec 1800),
               (Parsed (JObj [(''patientHash'', JStr ''p7'')]), usec 3600 - 1)]"
  have h: "?rs \<noteq> [] \<and> (\<forall>r\<in>set ?rs. patient_key (fst r) = Inr (KStr ''p7'')) \<and>
      sorted (map snd ?rs) \<and> snd (last ?rs) - snd (hd ?rs) < usec 3600"
    by (simp add: patient_key_def request_json_def dict_get_def hash_key_def usec_def)
  from counts_within_window [of ?rs "KStr ''p7''"] h
  have A: "fst (serve ?rs HISTORY) = map (\<lambda>n. Inr (score n)) [1..<Suc (length ?rs)]"
    and E: "entry (snd (serve ?rs HISTORY)) (KStr ''p7'') = map snd ?rs"
    by blast+
  have B: "map (\<lambda>n. Inr (score n)) [1..<Suc (length ?rs)] = [Inr (score 1), Inr (score 2), Inr (score 3)]"
    by (simp add: upt_rec eval_nat_numeral)
  have C: "map snd ?rs = [0, usec 1800, usec 3600 - 1]" by simp
  show ?thesis using A [unfolded B] E [unfolded C] by (rule conjI)
qed

subsection \<open>C4: isolation across identifiers\<close>

text \<open>
  C4: for distinct identifiers \<open>a\<close> and \<open>b\<close>, a call for \<open>a\<close> leaves the stored sequence
  of \<open>b\<close> as it is, and a later call for \<open>b\<close> returns the same count and stores the same
  sequence as it would without the call for \<open>a\<close>. At the handler: after a request filed
  under \<open>a\<close>, any later requests not filed under \<open>a\<close> get the responses, and leave the
  sequences of all identifiers other than \<open>a\<close>, that they would without it.
\<close>

theorem isolation_across_identifiers:
  "(a \<noteq> b \<longrightarrow>
      patients (snd (recordAndCount a ta h)) b = patients h b \<and>
      fst (recordAndCount b tb (snd (recordAndCount a ta h))) = fst (recordAndCount b tb h) \<and>
      patients (snd (recordAndCount b tb (snd (recordAndCount a ta h)))) b =
        patients (snd (recordAndCount b tb h)) b) \<and>
   (patient_key ba = Inr a \<and> (\<forall>r\<in>set rs. patient_key (fst r) \<noteq> Inr a) \<longrightarrow>
      fst (serve rs (snd (analyze ba ta h))) = fst (serve rs h) \<and>
      (\<forall>k. k \<noteq> a \<longrightarrow>
         patients (snd (serve rs (snd (analyze ba ta h)))) k = patients (snd (serve rs h)) k))"
proof (intro conjI impI)
  assume ab: "a \<noteq> b"
  then have e: "entry (update_history a ta h) b = entry h b"
    by (simp add: entry_update_history_other)
  show "patients (snd (recordAndCount a ta h)) b = patients h b"
    using ab by (rule patients_recordAndCount_other)
  show "fst (recordAndCount b tb (snd (recordAndCount a ta h))) = fst (recordAndCount b tb h)"
    by (simp add: recordAndCount_eq e)
  show "patients (snd (recordAndCount b tb (snd (recordAndCount a ta h)))) b =
        patients (snd (recordAndCount b tb h)) b"
    by (simp add: recordAndCount_eq patients_update_history e)
next
  assume "patient_key ba = Inr a \<and> (\<forall>r\<in>set rs. patient_key (fst r) \<noteq> Inr a)"
  then have ka: "patient_key ba = Inr a" and nk: "\<forall>r\<in>set rs. patient_key (fst r) \<noteq> Inr a"
    by simp_all
  have frame: "\<forall>k. k \<noteq> a \<longrightarrow> patients (snd (analyze ba ta h)) k = patients h k"
    by (simp add: analyze_ok [OF ka] patients_update_history)
  from serve_agree [OF nk frame]
  show "fst (serve rs (snd (analyze ba ta h))) = fst (serve rs h)"
    and "\<forall>k. k \<noteq> a \<longrightarrow>
         patients (snd (serve rs (snd (analyze ba ta h)))) k = patients (snd (serve rs h)) k"
    by simp_all
qed

theorem isolation_across_identifiers_witness:
  "patients (snd (recordAndCount (KStr ''A'') 5 HISTORY)) (KStr ''B'') = patients HISTORY (KStr ''B'') \<and>
   fst (recordAndCount (KStr ''B'') 7 (snd (recordAndCount (KStr ''A'') 5 HISTORY))) =
     fst (recordAndCount (KStr ''B'') 7 HISTORY) \<and>
   fst (serve [(Parsed (JObj [(''patientHash'', JStr ''B'')]), 7)]
          (snd (analyze (Parsed (JObj [(''patientHash'', JStr ''A'')])) 5 HISTORY))) =
     fst (serve [(Parsed (JObj [(''patientHash'', JStr ''B'')]), 7)] HISTORY)"
proof -
  have ne: "KStr ''A'' \<noteq> KStr ''B''" by simp
  have h: "patient_key (Parsed (JObj [(''patientHash'', JStr ''A'')])) = Inr (KStr ''A'') \<and>
    (\<forall>r\<in>set [(Parsed (JObj [(''patientHash'', JStr ''B'')]), 7::int)].
        patient_key (fst r) \<noteq> Inr (KStr ''A''))"
    by (simp add: patient_key_str)
  from isolation_across_identifiers
    [of "KStr ''A''" "KStr ''B''" 5 HISTORY 7 "Parsed (JObj [(''patientHash'', JStr ''A'')])"
        "[(Parsed (JObj [(''patientHash'', JStr ''B'')]), 7)]"] ne h
  show ?thesis by blast
qed

subsection \<open>C5: a request without patientHash\<close>

text \<open>
  C5: a request whose body is an object without the field \<^verbatim>\<open>patientHash\<close> is not
  rejected: it is filed under the key \<^verbatim>\<open>None\<close>, the same key as an explicit null, and
  answered with the count of that key's sequence. All such requests share that one
  sequence: from the initial store, two of them less than an hour apart are answered
  with the counts 1 and 2, whatever else their bodies hold.
\<close>

theorem missing_patientHash_shared_bucket:
  "(map_of kvs ''patientHash'' = None \<longrightarrow>
      patient_key (Parsed (JObj kvs)) = Inr KNone \<and>
      patient_key (Parsed (JObj kvs)) = patient_key (Parsed (JObj [(''patientHash'', JNull)])) \<and>
      analyze (Parsed (JObj kvs)) now h =
        (Inr (score (length (filter (keep now) (entry h KNone @ [now])))),
         update_history KNone now h) \<and>
      entry (snd (analyze (Parsed (JObj kvs)) now h)) KNone =
        filter (keep now) (entry h KNone @ [now])) \<and>
   (map_of kvs1 ''patientHash'' = None \<and> map_of kvs2 ''patientHash'' = None \<and>
    0 \<le> t2 - t1 \<and> t2 - t1 < usec 3600 \<longrightarrow>
      fst (serve [(Parsed (JObj kvs1), t1), (Parsed (JObj kvs2), t2)] HISTORY) =
        [Inr (score 1), Inr (score 2)] \<and>
      entry (snd (serve [(Parsed (JObj kvs1), t1), (Parsed (JObj kvs2), t2)] HISTORY)) KNone =
        [t1, t2])"
proof (intro conjI impI)
  assume a: "map_of kvs ''patientHash'' = None"
  show k: "patient_key (Parsed (JObj kvs)) = Inr KNone" using a by (rule patient_key_absent)
  show "patient_key (Parsed (JObj kvs)) = patient_key (Parsed (JObj [(''patientHash'', JNull)]))"
    unfolding k by (simp add: patient_key_obj hash_key_def)
  show "analyze (Parsed (JObj kvs)) now h =
        (Inr (score (length (filter (keep now) (entry h KNone @ [now])))),
         update_history KNone now h)"
    by (rule analyze_ok [OF k])
  show "entry (snd (analyze (Parsed (JObj kvs)) now h)) KNone =
        filter (keep now) (entry h KNone @ [now])"
    unfolding analyze_ok [OF k] by (simp only: snd_conv entry_update_history_same)
next
  assume a: "map_of kvs1 ''patientHash'' = None \<and> map_of kvs2 ''patientHash'' = None \<and>
    0 \<le> t2 - t1 \<and> t2 - t1 < usec 3600"
  let ?rs = "[(Parsed (JObj kvs1), t1), (Parsed (JObj kvs2), t2)]"
  have ne: "?rs \<noteq> []" by simp
  have k: "\<forall>r\<in>set ?rs. patient_key (fst r) = Inr KNone"
    using a by (simp add: patient_key_absent)
  have srt: "sorted (map snd ?rs)" using a by simp
  have span: "snd (last ?rs) - snd (hd ?rs) < usec 3600" using a by simp
  have u: "map (\<lambda>n. Inr (score n)) [1..<Suc (length ?rs)] = [Inr (score 1), Inr (score 2)]"
    by (simp add: upt_rec eval_nat_numeral)
  show "fst (serve ?rs HISTORY) = [Inr (score 1), Inr (score 2)]"
    using serve_fresh_within(1) [OF ne k srt span] unfolding u .
  have m: "map snd ?rs = [t1, t2]" by simp
  show "entry (snd (serve ?rs HISTORY)) KNone = [t1, t2]"
    using serve_fresh_within(2) [OF ne k srt span] unfolding m .
qed

theorem missing_patientHash_shared_bucket_witness:
  "patient_key (Parsed (JObj [(''doctorAddress'', JStr ''0xd1'')])) = Inr KNone \<and>
   fst (serve [(Parsed (JObj [(''doctorAddress'', JStr ''0xd1'')]), 0),
               (Parsed (JObj []), usec 10)] HISTORY) = [Inr (score 1), Inr (score 2)] \<and>
   entry (snd (serve [(Parsed (JObj [(''doctorAddress'', JStr ''0xd1'')]), 0),
               (Parsed (JObj []), usec 10)] HISTORY)) KNone = [0, usec 10]"
proof -
  have h1: "map_of [(''doctorAddress'', JStr ''0xd1'')] ''patientHash'' = None" by simp
  have h2: "map_of [(''doctorAddress'', JStr ''0xd1'')] ''patientHash'' = None \<and>
    map_of ([]::(string \<times> json) list) ''patientHash'' = None \<and>
    0 \<le> usec 10 - 0 \<and> usec 10 - 0 < usec 3600"
    by (simp add: usec_def)
  note T = missing_patientHash_shared_bucket
    [of "[(''doctorAddress'', JStr ''0xd1'')]" 0 HISTORY
        "[(''doctorAddress'', JStr ''0xd1'')]" "[]" "usec 10" 0]
  have B: "patient_key (Parsed (JObj [(''doctorAddress'', JStr ''0xd1'')])) = Inr KNone"
    using T [THEN conjunct1, THEN mp, OF h1] by (rule conjunct1)
  have D: "fst (serve [(Parsed (JObj [(''doctorAddress'', JStr ''0xd1'')]), 0),
               (Parsed (JObj []), usec 10)] HISTORY) = [Inr (score 1), Inr (score 2)] \<and>
   entry (snd (serve [(Parsed (JObj [(''doctorAddress'', JStr ''0xd1'')]), 0),
               (Parsed (JObj []), usec 10)] HISTORY)) KNone = [0, usec 10]"
    using T [THEN conjunct2] h2 by (rule mp)
  show ?thesis using B D by (rule conjI)
qed

subsection \<open>C6: a malformed body\<close>

text \<open>
  C6: a body that is not valid structured data is answered with the client error and the
  store is left as it was. More generally every request that ends in an error, whichever
  it is, leaves the store as it was, and the requests after it are served as if it had
  not been made.
\<close>

theorem malformed_body_keeps_store:
  "analyze Malformed now h = (Inl BadRequest, h) \<and>
   serve ((Malformed, now) # rs) h = (Inl BadRequest # fst (serve rs h), snd (serve rs h)) \<and>
   (fst (analyze b now h) = Inl e \<longrightarrow>
      snd (analyze b now h) = h \<and>
      serve ((b, now) # rs) h = (Inl e # fst (serve rs h), snd (serve rs h)))"
proof (intro conjI impI)
  show m: "analyze Malformed now h = (Inl BadRequest, h)"
    by (simp add: analyze_def request_json_def)
  show "serve ((Malformed, now) # rs) h = (Inl BadRequest # fst (serve rs h), snd (serve rs h))"
    unfolding serve_Cons m by simp
next
  assume a: "fst (analyze b now h) = Inl e"
  show s: "snd (analyze b now h) = h" using a by (rule analyze_error_keeps_store)
  show "serve ((b, now) # rs) h = (Inl e # fst (serve rs h), snd (serve rs h))"
    unfolding serve_Cons a s by (rule refl)
qed

theorem malformed_body_keeps_store_witness:
  "fst (analyze (Parsed (JObj [(''patientHash'', JArr [])])) 3 HISTORY) = Inl TypeError \<and>
   snd (analyze (Parsed (JObj [(''patientHash'', JArr [])])) 3 HISTORY) = HISTORY \<and>
   fst (analyze (Parsed (JArr [])) 3 HISTORY) = Inl AttributeError \<and>
   snd (analyze (Parsed (JArr [])) 3 HISTORY) = HISTORY"
proof -
  have h1: "fst (analyze (Parsed (JObj [(''patientHash'', JArr [])])) 3 HISTORY) = Inl TypeError"
    by (simp add: analyze_def request_json_def dict_get_def hash_key_def)
  have h2: "fst (analyze (Parsed (JArr [])) 3 HISTORY) = Inl AttributeError"
    by (simp add: analyze_def request_json_def dict_get_def)
  have s1: "snd (analyze (Parsed (JObj [(''patientHash'', JArr [])])) 3 HISTORY) = HISTORY"
    using malformed_body_keeps_store
      [of 3 HISTORY "[]" "Parsed (JObj [(''patientHash'', JArr [])])" TypeError,
       THEN conjunct2, THEN conjunct2, THEN mp, OF h1]
    by (rule conjunct1)
  have s2: "snd (analyze (Parsed (JArr [])) 3 HISTORY) = HISTORY"
    using malformed_body_keeps_store
      [of 3 HISTORY "[]" "Parsed (JArr [])" AttributeError,
       THEN conjunct2, THEN conjunct2, THEN mp, OF h2]
    by (rule conjunct1)
  show ?thesis using h1 s1 h2 s2 by (intro conjI)
qed

subsection \<open>C7: doctorAddress\<close>

text \<open>
  C7: two requests whose bodies are objects that agree on every field other than
  \<^verbatim>\<open>doctorAddress\<close> (which may hold different values, or be absent from one of them)
  get the same response and leave the same store.
\<close>

theorem doctorAddress_unused:
  "(\<forall>k. k \<noteq> ''doctorAddress'' \<longrightarrow> map_of kvs1 k = map_of kvs2 k) \<Longrightarrow>
   analyze (Parsed (JObj kvs1)) now h = analyze (Parsed (JObj kvs2)) now h"
proof -
  assume a: "\<forall>k. k \<noteq> ''doctorAddress'' \<longrightarrow> map_of kvs1 k = map_of kvs2 k"
  have "map_of kvs1 ''patientHash'' = map_of kvs2 ''patientHash''"
    using a [rule_format, of "''patientHash''"] by simp
  then have "patient_key (Parsed (JObj kvs1)) = patient_key (Parsed (JObj kvs2))"
    by (simp add: patient_key_obj)
  then show ?thesis by (simp add: analyze_cases)
qed

theorem doctorAddress_unused_witness:
  "analyze (Parsed (JObj [(''patientHash'', JStr ''p1''), (''doctorAddress'', JStr ''0xd1'')])) 5 HISTORY =
   analyze (Parsed (JObj [(''doctorAddress'', JStr ''0xd2''), (''patientHash'', JStr ''p1'')])) 5 HISTORY \<and>
   analyze (Parsed (JObj [(''patientHash'', JStr ''p1''), (''doctorAddress'', JStr ''0xd1'')])) 5 HISTORY =
   analyze (Parsed (JObj [(''patientHash'', JStr ''p1'')])) 5 HISTORY"
proof -
  have h1: "\<forall>k. k \<noteq> ''doctorAddress'' \<longrightarrow>
      map_of [(''patientHash'', JStr ''p1''), (''doctorAddress'', JStr ''0xd1'')] k =
      map_of [(''doctorAddress'', JStr ''0xd2''), (''patientHash'', JStr ''p1'')] k"
    by simp
  have h2: "\<forall>k. k \<noteq> ''doctorAddress'' \<longrightarrow>
      map_of [(''patientHash'', JStr ''p1''), (''doctorAddress'', JStr ''0xd1'')] k =
      map_of [(''patientHash'', JStr ''p1'')] k"
    by simp
  show ?thesis
    using doctorAddress_unused [OF h1, of 5 HISTORY] doctorAddress_unused [OF h2, of 5 HISTORY]
    by (rule conjI)
qed

subsection \<open>C8: insertion order and duplicates\<close>

text \<open>
  C8: a call replaces the sequence of its identifier by the old sequence with \<open>now\<close>
  appended, filtered: the new sequence is a subsequence of that list, so nothing is
  reordered; every timestamp that passes the filter keeps its number of occurrences, so
  nothing is deduplicated; and \<open>now\<close> occurs once more than before, so an event at an
  instant already stored is stored and counted again. Over any sequence of requests from
  the initial store, the sequence of an identifier is a subsequence of the clock values
  of the requests filed under it, in the order of arrival.
\<close>

theorem insertion_order_duplicates_kept:
  "entry (snd (recordAndCount p now h)) p = filter (keep now) (entry h p @ [now]) \<and>
   subseq (entry (snd (recordAndCount p now h)) p) (entry h p @ [now]) \<and>
   count_list (entry (snd (recordAndCount p now h)) p) now = Suc (count_list (entry h p) now) \<and>
   fst (recordAndCount p now h) = length (entry (snd (recordAndCount p now h)) p) \<and>
   (keep now t \<longrightarrow>
      count_list (entry (snd (recordAndCount p now h)) p) t = count_list (entry h p @ [now]) t) \<and>
   subseq (entry (snd (serve rs HISTORY)) k) (inserted k rs) \<and>
   (sorted (map snd rs) \<longrightarrow> sorted (entry (snd (serve rs HISTORY)) k))"
proof (intro conjI impI)
  show e: "entry (snd (recordAndCount p now h)) p = filter (keep now) (entry h p @ [now])"
    by (simp only: recordAndCount_eq snd_conv entry_update_history_same)
  show "subseq (entry (snd (recordAndCount p now h)) p) (entry h p @ [now])"
    unfolding e by (rule subseq_filter_left)
  show "count_list (entry (snd (recordAndCount p now h)) p) now = Suc (count_list (entry h p) now)"
    unfolding e by (simp add: count_list_filter keep_self)
  show "fst (recordAndCount p now h) = length (entry (snd (recordAndCount p now h)) p)"
    unfolding e by (simp only: recordAndCount_eq fst_conv)
  show "count_list (entry (snd (recordAndCount p now h)) p) t = count_list (entry h p @ [now]) t"
    if "keep now t"
    unfolding e using that by (simp only: count_list_filter if_True)
  show s: "subseq (entry (snd (serve rs HISTORY)) k) (inserted k rs)"
    using entry_serve_subseq [of rs HISTORY k] by (simp add: entry_HISTORY)
  show "sorted (entry (snd (serve rs HISTORY)) k)" if "sorted (map snd rs)"
  proof -
    have "sorted (inserted k rs)" unfolding inserted_filter using that by (rule sorted_filter)
    with s show ?thesis by (rule sorted_subseq)
  qed
qed

theorem insertion_order_duplicates_kept_witness:
  "count_list (entry (snd (recordAndCount (KStr ''p1'') 7
       (snd (recordAndCount (KStr ''p1'') 7 HISTORY)))) (KStr ''p1'')) 7 = 2 \<and>
   sorted (entry (snd (serve [(Parsed (JObj [(''patientHash'', JStr ''p1'')]), 7),
                              (Parsed (JObj [(''patientHash'', JStr ''p1'')]), 7)] HISTORY))
             (KStr ''p1''))"
proof -
  let ?h1 = "snd (recordAndCount (KStr ''p1'') 7 HISTORY)"
  let ?rs = "[(Parsed (JObj [(''patientHash'', JStr ''p1'')]), 7::int),
              (Parsed (JObj [(''patientHash'', JStr ''p1'')]), 7)]"
  note T = insertion_order_duplicates_kept [of "KStr ''p1''" 7 ?h1 7 ?rs "KStr ''p1''"]
  note c5 = T [THEN conjunct2, THEN conjunct2, THEN conjunct2, THEN conjunct2, THEN conjunct1]
  note c7 = T [THEN conjunct2, THEN conjunct2, THEN conjunct2, THEN conjunct2,
               THEN conjunct2, THEN conjunct2]
  have e1: "entry ?h1 (KStr ''p1'') = [7]"
    by (simp add: recordAndCount_eq entry_update_history_same entry_HISTORY keep_self)
  have "count_list (entry (snd (recordAndCount (KStr ''p1'') 7 ?h1)) (KStr ''p1'')) 7 =
      count_list (entry ?h1 (KStr ''p1'') @ [7]) 7"
    using c5 keep_self by (rule mp)
  then have A: "count_list (entry (snd (recordAndCount (KStr ''p1'') 7 ?h1)) (KStr ''p1'')) 7 = 2"
    unfolding e1 by simp
  have "sorted (map snd ?rs)" by simp
  with c7 have B: "sorted (entry (snd (serve ?rs HISTORY)) (KStr ''p1''))" by (rule mp)
  show ?thesis using A B by (rule conjI)
qed

subsection \<open>C10: the doctor-keyed history\<close>

text \<open>
  C10: the doctor-keyed history is empty in the initial store, the handler never writes
  it (it is the same after a request, and empty after any sequence of requests from the
  initial store) and never reads it (replacing it changes neither the response nor the
  patient-keyed history).
\<close>

theorem doctors_inert:
  "doctors HISTORY = Map.empty \<and>
   doctors (snd (analyze b now h)) = doctors h \<and>
   doctors (snd (serve rs HISTORY)) = Map.empty \<and>
   analyze b now (h\<lparr>doctors := d\<rparr>) =
     (fst (analyze b now h), (snd (analyze b now h))\<lparr>doctors := d\<rparr>)"
proof -
  have "doctors HISTORY = Map.empty" by (simp add: HISTORY_def)
  moreover have "doctors (snd (analyze b now h)) = doctors h" by (rule doctors_analyze)
  moreover have "doctors (snd (serve rs HISTORY)) = Map.empty"
    by (simp add: doctors_serve HISTORY_def)
  moreover have "analyze b now (h\<lparr>doctors := d\<rparr>) =
     (fst (analyze b now h), (snd (analyze b now h))\<lparr>doctors := d\<rparr>)"
    by (cases "patient_key b")
       (simp_all add: analyze_ok analyze_err update_history_doctors entry_def)
  ultimately show ?thesis by simp
qed

end
